theory Spec2Isabelle
  imports Main "HOL-Library.Word" "HOL-Library.Signed_Division"
begin

section \<open>Data model of \<^verbatim>\<open>src/src/main.cpp\<close>\<close>

text \<open>
  The target is an ATtiny85 (AVR): \<^verbatim>\<open>int\<close> is 16 bits wide, so every operand that C++
  promotes to \<^verbatim>\<open>int\<close> or \<^verbatim>\<open>unsigned int\<close> is a 16-bit word here. \<^verbatim>\<open>uint8_t\<close> is
  \<open>8 word\<close>, \<^verbatim>\<open>uint16_t\<close> and \<^verbatim>\<open>int16_t\<close> are \<open>16 word\<close> (read with \<open>unat\<close> and
  \<open>sint\<close> respectively). Addition and multiplication wrap as the hardware does.

  The source file holds the program text twice: a second complete copy starts in the middle
  of case 8 of \<^verbatim>\<open>processNECCommand\<close> of the first. The two copies agree line by line;
  the definitions below follow that text.
\<close>

type_synonym u8 = "8 word"
type_synonym u16 = "16 word"

text \<open>\<^verbatim>\<open>struct PWMdata { uint8_t coldWhite; uint8_t warmWhite; }\<close>\<close>

record PWMdata =
  coldWhite :: u8
  warmWhite :: u8

text \<open>
  The globals \<^verbatim>\<open>whiteColor\<close>, \<^verbatim>\<open>brightness\<close>, \<^verbatim>\<open>current_preset\<close>, \<^verbatim>\<open>is_on\<close>,
  \<^verbatim>\<open>is_night\<close>, the two compare registers written by \<^verbatim>\<open>setPWM\<close> and the EEPROM cells.
  Three history fields record the effects in the order they happen: every \<^verbatim>\<open>PWMdata\<close>
  handed to \<^verbatim>\<open>setPWM\<close>, every \<^verbatim>\<open>EEPROM.update\<close> call, and the number of outer
  iterations the busy-wait loop of \<^verbatim>\<open>mdelay\<close> has run.
\<close>

record ctrl =
  whiteColor :: PWMdata
  brightness :: u8
  current_preset :: u8
  is_on :: bool
  is_night :: bool
  OCR1A :: u8
  OCR1B :: u8
  eeprom :: "nat \<Rightarrow> u8"
  pwm_out :: "PWMdata list"
  eeprom_out :: "(nat \<times> u8) list"
  elapsed :: nat

definition EEPROM_COLD_WHITE_ADDR :: nat where
  "EEPROM_COLD_WHITE_ADDR = 0"

definition EEPROM_WARM_WHITE_ADDR :: nat where
  "EEPROM_WARM_WHITE_ADDR = 1"

text \<open>\<^verbatim>\<open>const uint8_t presets[5][2]\<close>\<close>

definition presets :: "(u8 \<times> u8) list" where
  "presets = [(255, 1), (255, 128), (255, 255), (128, 255), (1, 255)]"

text \<open>\<^verbatim>\<open>(PWMdata){presets[i][0], presets[i][1]}\<close>; every index the program uses is below 5.\<close>

definition preset :: "nat \<Rightarrow> PWMdata" where
  "preset i = \<lparr>coldWhite = fst (presets ! i), warmWhite = snd (presets ! i)\<rparr>"

section \<open>Library primitives the program calls\<close>

text \<open>
  Modelled from the spec: the Arduino macro \<^verbatim>\<open>constrain(amt, low, high)\<close> is not part of
  the repository; the spec says it clamps to the closed range. It is the usual
  \<^verbatim>\<open>((amt)<(low)?(low):((amt)>(high)?(high):(amt)))\<close>. On \<^verbatim>\<open>uint16_t\<close> operands the
  comparisons are unsigned.
\<close>

definition constrain :: "u16 \<Rightarrow> u16 \<Rightarrow> u16 \<Rightarrow> u16" where
  "constrain amt low high = (if amt < low then low else if amt > high then high else amt)"

text \<open>The same macro on \<^verbatim>\<open>int16_t\<close> operands: the comparisons are signed.\<close>

definition constrain_s :: "u16 \<Rightarrow> u16 \<Rightarrow> u16 \<Rightarrow> u16" where
  "constrain_s amt low high = (if amt <s low then low else if high <s amt then high else amt)"

text \<open>C++ division of \<^verbatim>\<open>int16_t\<close> values: the quotient is truncated towards zero.\<close>

definition sdiv16 :: "u16 \<Rightarrow> u16 \<Rightarrow> u16" where
  "sdiv16 a b = word_of_int (sint a sdiv sint b)"

text \<open>
  Modelled from the spec: \<^verbatim>\<open>EEPROM.read\<close> and \<^verbatim>\<open>EEPROM.update\<close> belong to the Arduino
  core; the spec describes them as the load and store of the persistence collaborator.
\<close>

definition EEPROM_read :: "nat \<Rightarrow> ctrl \<Rightarrow> u8" where
  "EEPROM_read a s = eeprom s a"

definition EEPROM_update :: "nat \<Rightarrow> u8 \<Rightarrow> ctrl \<Rightarrow> ctrl" where
  "EEPROM_update a v s =
     s\<lparr>eeprom := (eeprom s)(a := v), eeprom_out := eeprom_out s @ [(a, v)]\<rparr>"

section \<open>The functions of the program\<close>

text \<open>
  \<^verbatim>\<open>mdelay\<close>: the outer loop runs for \<open>j = 1, \<dots>, time - 1\<close>; it changes nothing but the
  time that has passed.
\<close>

definition mdelay :: "u16 \<Rightarrow> ctrl \<Rightarrow> ctrl" where
  "mdelay time s = s\<lparr>elapsed := elapsed s + (unat time - 1)\<rparr>"

definition scaleFactor :: u16 where
  "scaleFactor = 100"

text \<open>
  The body of \<^verbatim>\<open>setBrightness\<close> up to, but not including, the final \<^verbatim>\<open>constrain\<close>: the pair
  \<^verbatim>\<open>(newColdWhitePWM, newWarmWhitePWM)\<close>. Both divisions are unsigned 16-bit divisions; a
  zero divisor is undefined behaviour in C++ and is the result \<open>None\<close> here.
\<close>

definition setBrightness_raw :: "u8 \<Rightarrow> PWMdata \<Rightarrow> (u16 \<times> u16) option" where
  "setBrightness_raw b white =
     (if coldWhite white \<ge> warmWhite white then
        (if (ucast (warmWhite white) :: u16) = 0 then None
         else
           let temp = (ucast (coldWhite white) * scaleFactor
                        + (ucast (warmWhite white) * 9) div 10) div ucast (warmWhite white)
           in if temp = 0 then None
              else Some (ucast b, (ucast b * scaleFactor + (temp * 9) div 10) div temp))
      else
        (if (ucast (coldWhite white) :: u16) = 0 then None
         else
           let temp = (ucast (warmWhite white) * scaleFactor
                        + (ucast (coldWhite white) * 9) div 10) div ucast (coldWhite white)
           in if temp = 0 then None
              else Some ((ucast b * scaleFactor + (temp * 9) div 10) div temp, ucast b)))"

text \<open>\<^verbatim>\<open>setBrightness\<close>: the raw pair, each channel constrained to 1..255 and cast to a byte.\<close>

definition setBrightness :: "u8 \<Rightarrow> PWMdata \<Rightarrow> PWMdata option" where
  "setBrightness b white =
     (case setBrightness_raw b white of
        None \<Rightarrow> None
      | Some (newColdWhitePWM, newWarmWhitePWM) \<Rightarrow>
          Some \<lparr>coldWhite = ucast (constrain newColdWhitePWM 1 255),
                warmWhite = ucast (constrain newWarmWhitePWM 1 255)\<rparr>)"

text \<open>\<^verbatim>\<open>setPWM\<close>: the value 1 switches a channel off, every other value is written as it is.\<close>

definition setPWM :: "PWMdata \<Rightarrow> ctrl \<Rightarrow> ctrl" where
  "setPWM white s =
     s\<lparr>OCR1A := (if coldWhite white = 1 then 0 else coldWhite white),
       OCR1B := (if warmWhite white = 1 then 0 else warmWhite white),
       pwm_out := pwm_out s @ [white]\<rparr>"

text \<open>
  The \<^verbatim>\<open>for (uint16_t i = 0; i <= steps; i++)\<close> loop of \<^verbatim>\<open>fadePWM\<close>, with the loop
  counter and the two running values as arguments.
\<close>

function fadePWM_loop :: "u16 \<Rightarrow> u16 \<Rightarrow> u16 \<Rightarrow> u16 \<Rightarrow> u16 \<Rightarrow> u16 \<Rightarrow> ctrl \<Rightarrow> ctrl" where
  "fadePWM_loop i currentCold currentWarm stepCold stepWarm stepDelay s =
     (if i \<le> 50 then
        fadePWM_loop (i + 1) (currentCold + stepCold) (currentWarm + stepWarm)
          stepCold stepWarm stepDelay
          (mdelay stepDelay
            (setPWM \<lparr>coldWhite = ucast (constrain_s currentCold 1 255),
                     warmWhite = ucast (constrain_s currentWarm 1 255)\<rparr> s))
      else s)"
  by pat_completeness auto

termination
proof (relation "measure (\<lambda>(i, _). 51 - unat i)")
  show "wf (measure (\<lambda>(i :: u16, _ :: u16 \<times> u16 \<times> u16 \<times> u16 \<times> u16 \<times> ctrl). 51 - unat i))"
    by simp
next
  fix i :: u16 and currentCold currentWarm stepCold stepWarm stepDelay :: u16 and s :: ctrl
  assume le: "i \<le> 50"
  then have "unat i \<le> 50"
    by (simp add: word_le_nat_alt)
  moreover from this have "unat (i + 1) = unat i + 1"
    by (simp add: unat_word_ariths)
  ultimately show "((i + 1, currentCold + stepCold, currentWarm + stepWarm, stepCold, stepWarm,
           stepDelay,
           mdelay stepDelay
            (setPWM \<lparr>coldWhite = ucast (constrain_s currentCold 1 255),
                     warmWhite = ucast (constrain_s currentWarm 1 255)\<rparr> s)),
          (i, currentCold, currentWarm, stepCold, stepWarm, stepDelay, s))
         \<in> measure (\<lambda>(i, _). 51 - unat i)"
    by simp
qed

declare fadePWM_loop.simps [simp del]

definition fadePWM :: "PWMdata \<Rightarrow> PWMdata \<Rightarrow> u16 \<Rightarrow> ctrl \<Rightarrow> ctrl" where
  "fadePWM start stop durationMs s =
     (let steps = 50;
          stepDelay = sdiv16 durationMs steps;
          stepCold = sdiv16 (ucast (coldWhite stop) - ucast (coldWhite start)) steps;
          stepWarm = sdiv16 (ucast (warmWhite stop) - ucast (warmWhite start)) steps
      in setPWM stop
           (fadePWM_loop 0 (ucast (coldWhite start)) (ucast (warmWhite start))
              stepCold stepWarm stepDelay s))"

definition readColor :: "ctrl \<Rightarrow> PWMdata" where
  "readColor s = \<lparr>coldWhite = EEPROM_read EEPROM_COLD_WHITE_ADDR s,
                  warmWhite = EEPROM_read EEPROM_WARM_WHITE_ADDR s\<rparr>"

text \<open>
  \<^verbatim>\<open>getBrightness\<close> compares the cold channel of its argument with the warm channel of the
  global \<^verbatim>\<open>whiteColor\<close>, as the source does.
\<close>

definition getBrightness :: "PWMdata \<Rightarrow> ctrl \<Rightarrow> u8" where
  "getBrightness color s =
     (if coldWhite color > warmWhite (whiteColor s) then coldWhite color else warmWhite color)"

text \<open>The initialisers of the globals; an erased EEPROM reads 255 in every cell.\<close>

definition init_ctrl :: ctrl where
  "init_ctrl =
     \<lparr>whiteColor = \<lparr>coldWhite = 128, warmWhite = 128\<rparr>, brightness = 128,
      current_preset = 0, is_on = True, is_night = False, OCR1A = 0, OCR1B = 0,
      eeprom = (\<lambda>_. 255), pwm_out = [], eeprom_out = [], elapsed = 0\<rparr>"

definition increment :: u16 where
  "increment = 4"

definition off :: PWMdata where
  "off = \<lparr>coldWhite = 0, warmWhite = 0\<rparr>"

text \<open>The two colour-temperature cases share their shape; each is written out as in the source.\<close>

definition colder :: "ctrl \<Rightarrow> ctrl" where
  "colder s =
     (let w0 = whiteColor s;
          w1 = (if ucast (coldWhite w0) < 255 - increment
                then w0\<lparr>coldWhite := ucast (ucast (coldWhite w0) + increment)\<rparr>
                else w0\<lparr>coldWhite := 255\<rparr>);
          w2 = (if ucast (warmWhite w1) \<ge> increment
                then w1\<lparr>warmWhite := ucast (ucast (warmWhite w1) - increment)\<rparr>
                else w1\<lparr>warmWhite := 0\<rparr>);
          w3 = (if coldWhite w2 = 0 then w2\<lparr>coldWhite := 1\<rparr> else w2);
          w4 = (if warmWhite w3 = 0 then w3\<lparr>warmWhite := 1\<rparr> else w3);
          s1 = s\<lparr>whiteColor := w4\<rparr>;
          s2 = (if coldWhite (whiteColor s1) > warmWhite (whiteColor s1)
                then s1\<lparr>brightness := coldWhite (whiteColor s1)\<rparr>
                else s1\<lparr>brightness := warmWhite (whiteColor s1)\<rparr>)
      in setPWM (whiteColor s2) s2)"

definition warmer :: "ctrl \<Rightarrow> ctrl" where
  "warmer s =
     (let w0 = whiteColor s;
          w1 = (if ucast (warmWhite w0) < 255 - increment
                then w0\<lparr>warmWhite := ucast (ucast (warmWhite w0) + increment)\<rparr>
                else w0\<lparr>warmWhite := 255\<rparr>);
          w2 = (if ucast (coldWhite w1) \<ge> increment
                then w1\<lparr>coldWhite := ucast (ucast (coldWhite w1) - increment)\<rparr>
                else w1\<lparr>coldWhite := 0\<rparr>);
          w3 = (if coldWhite w2 = 0 then w2\<lparr>coldWhite := 1\<rparr> else w2);
          w4 = (if warmWhite w3 = 0 then w3\<lparr>warmWhite := 1\<rparr> else w3);
          s1 = s\<lparr>whiteColor := w4\<rparr>;
          s2 = (if coldWhite (whiteColor s1) > warmWhite (whiteColor s1)
                then s1\<lparr>brightness := coldWhite (whiteColor s1)\<rparr>
                else s1\<lparr>brightness := warmWhite (whiteColor s1)\<rparr>)
      in setPWM (whiteColor s2) s2)"

text \<open>The cases 12, 24 and 94 differ only in the level handed to \<^verbatim>\<open>setBrightness\<close>.\<close>

definition fixed_level :: "u8 \<Rightarrow> ctrl \<Rightarrow> ctrl option" where
  "fixed_level level s =
     (case setBrightness level (whiteColor s) of
        None \<Rightarrow> None
      | Some newColor \<Rightarrow> Some ((fadePWM (whiteColor s) newColor 500 s)\<lparr>whiteColor := newColor\<rparr>))"

text \<open>
  \<^verbatim>\<open>processNECCommand\<close>: a \<^verbatim>\<open>switch\<close> without a \<^verbatim>\<open>default\<close> label. The result is \<open>None\<close>
  exactly when a call of \<^verbatim>\<open>setBrightness\<close> on the way divides by zero.
\<close>

definition processNECCommand :: "u16 \<Rightarrow> ctrl \<Rightarrow> ctrl option" where
  "processNECCommand command s =
     (if command = 69 then
        (let s1 = s\<lparr>is_on := \<not> is_on s\<rparr>
         in if is_on s1 then Some (fadePWM off (whiteColor s1) 500 s1)
            else Some (fadePWM (whiteColor s1) off 500 s1))
      else if command = 71 then
        (let s1 = s\<lparr>current_preset := ucast ((ucast (current_preset s) + 1 :: u16) mod 5)\<rparr>
         in case setBrightness (brightness s1) (preset (unat (current_preset s1))) of
              None \<Rightarrow> None
            | Some newColor \<Rightarrow>
                Some ((fadePWM (whiteColor s1) newColor 500 s1)\<lparr>whiteColor := newColor\<rparr>))
      else if command = 9 then
        (let s1 = (if ucast (brightness s) < 255 - increment
                   then s\<lparr>brightness := ucast (ucast (brightness s) + increment)\<rparr>
                   else s\<lparr>brightness := 255\<rparr>)
         in case setBrightness (brightness s1) (whiteColor s1) of
              None \<Rightarrow> None
            | Some c \<Rightarrow> Some (setPWM c (s1\<lparr>whiteColor := c\<rparr>)))
      else if command = 7 then
        (let s1 = (if ucast (brightness s) \<ge> increment
                   then s\<lparr>brightness := ucast (ucast (brightness s) - increment)\<rparr>
                   else s\<lparr>brightness := 0\<rparr>)
         in case setBrightness (brightness s1) (whiteColor s1) of
              None \<Rightarrow> None
            | Some c \<Rightarrow> Some (setPWM c (s1\<lparr>whiteColor := c\<rparr>)))
      else if command = 25 then Some (colder s)
      else if command = 64 then Some (warmer s)
      else if command = 8 then
        (let s1 = s\<lparr>is_night := \<not> is_night s\<rparr>
         in if is_night s1 then
              (case setBrightness 5 (preset 4) of
                 None \<Rightarrow> None
               | Some night \<Rightarrow> Some (fadePWM (whiteColor s1) night 500 s1))
            else
              (let s2 = s1\<lparr>whiteColor := readColor s1\<rparr>;
                   s3 = s2\<lparr>brightness := getBrightness (whiteColor s2) s2\<rparr>
               in case setBrightness 5 (preset 4) of
                    None \<Rightarrow> None
                  | Some night \<Rightarrow> Some (fadePWM night (whiteColor s3) 500 s3)))
      else if command = 12 then fixed_level 25 s
      else if command = 24 then fixed_level 128 s
      else if command = 94 then fixed_level 255 s
      else if command = 28 then
        (let s1 = EEPROM_update EEPROM_COLD_WHITE_ADDR (coldWhite (whiteColor s)) s;
             s2 = EEPROM_update EEPROM_WARM_WHITE_ADDR (warmWhite (whiteColor s1)) s1;
             s3 = setPWM off s2;
             s4 = mdelay 200 s3
         in Some (setPWM (whiteColor s4) s4))
      else Some s)"

text \<open>
  The value of \<^verbatim>\<open>(n * scaleFactor + ((t * 9) / 10)) / t\<close> in 16-bit unsigned arithmetic, for a
  byte \<open>n\<close>, written on natural numbers: only the product \<open>t * 9\<close> can wrap. Both divisions of
  \<^verbatim>\<open>setBrightness\<close> have this shape (\<open>unat_rescale\<close> below).
\<close>

definition rescale100 :: "nat \<Rightarrow> nat \<Rightarrow> nat" where
  "rescale100 n t = (n * 100 + ((t * 9) mod 65536) div 10) div t"

text \<open>
  The colours the program scales: no channel of \<open>whiteColor\<close> is 0, and neither is a stored
  channel (the night light reads \<open>whiteColor\<close> back from the EEPROM).
\<close>

definition colours_valid :: "ctrl \<Rightarrow> bool" where
  "colours_valid s \<longleftrightarrow>
     coldWhite (whiteColor s) \<noteq> 0 \<and> warmWhite (whiteColor s) \<noteq> 0 \<and>
     eeprom s EEPROM_COLD_WHITE_ADDR \<noteq> 0 \<and> eeprom s EEPROM_WARM_WHITE_ADDR \<noteq> 0"

section \<open>Bytes and 16-bit words read as numbers\<close>

lemma unat_u8_bound: "unat (x :: u8) < 256"
  using unsigned_less [of x, where 'a = nat] by simp

lemma unat_ucast_u8 [simp]: "unat (ucast (x :: u8) :: u16) = unat x"
  using unat_u8_bound [of x] by (simp add: unsigned_ucast_eq take_bit_nat_eq_self)

lemma sint_ucast_u8 [simp]: "sint (ucast (x :: u8) :: u16) = int (unat x)"
proof -
  have "uint x < 2 ^ 15"
    using unsigned_less [of x, where 'a = int] by simp
  moreover have "- (2 ^ 15) \<le> uint x"
    by (rule order_trans [of _ 0]) simp_all
  ultimately have "signed_take_bit 15 (uint x) = uint x"
    by (simp add: signed_take_bit_int_eq_self)
  then show ?thesis
    by (simp add: signed_ucast_eq)
qed

lemma ucast_add4: "(ucast (ucast (x :: u8) + (4 :: u16)) :: u8) = x + 4"
  by (simp add: word_unat_eq_iff unsigned_ucast_eq take_bit_eq_mod unat_word_ariths mod_mod_cancel)

lemma ucast_sub4:
  assumes "4 \<le> unat x"
  shows "(ucast (ucast (x :: u8) - (4 :: u16)) :: u8) = x - 4"
proof -
  have b: "unat x < 256"
    by (rule unat_u8_bound)
  have "(4 :: u16) \<le> ucast x"
    using assms by (simp add: word_le_nat_alt)
  then have "unat (ucast x - (4 :: u16)) = unat x - 4"
    by (simp add: unat_sub)
  moreover have "(4 :: u8) \<le> x"
    using assms by (simp add: word_le_nat_alt)
  then have "unat (x - 4) = unat x - 4"
    by (simp add: unat_sub)
  ultimately show ?thesis
    using b by (simp add: word_unat_eq_iff unsigned_ucast_eq take_bit_eq_mod)
qed

lemma unat_add4: "unat (x :: u8) < 251 \<Longrightarrow> unat (x + 4) = unat x + 4"
  by (simp add: unat_word_ariths)

lemma unat_sub4: "4 \<le> unat (x :: u8) \<Longrightarrow> unat (x - 4) = unat x - 4"
  by (simp add: unat_sub word_le_nat_alt)

section \<open>The scaler on natural numbers\<close>

lemma round_term_less:
  assumes "0 < (t :: nat)"
  shows "((t * 9) mod 65536) div 10 < t"
proof -
  have "(t * 9) mod 65536 \<le> t * 9"
    by simp
  then show ?thesis
    using assms by linarith
qed

lemma rescale100_ge:
  assumes "0 < r" "r \<le> d"
  shows "100 \<le> rescale100 d r"
proof -
  have "100 * r \<le> d * 100 + ((r * 9) mod 65536) div 10"
    using assms by simp
  then show ?thesis
    using assms by (simp add: rescale100_def less_eq_div_iff_mult_less_eq)
qed

lemma rescale100_le:
  assumes "100 \<le> t"
  shows "rescale100 b t \<le> b"
proof -
  have "((t * 9) mod 65536) div 10 < t"
    using assms by (intro round_term_less) simp
  moreover have "b * 100 \<le> b * t"
    using assms by simp
  ultimately have "b * 100 + ((t * 9) mod 65536) div 10 < b * t + t"
    by linarith
  then have "b * 100 + ((t * 9) mod 65536) div 10 < Suc b * t"
    by simp
  then have "rescale100 b t < Suc b"
    using assms by (simp add: rescale100_def div_less_iff_less_mult)
  then show ?thesis
    by simp
qed

lemma rescale100_bounds:
  assumes "0 < t"
  shows "rescale100 b t * t \<le> b * 100 + ((t * 9) mod 65536) div 10"
    and "b * 100 + ((t * 9) mod 65536) div 10 < rescale100 b t * t + t"
proof -
  show "rescale100 b t * t \<le> b * 100 + ((t * 9) mod 65536) div 10"
    by (simp add: rescale100_def)
  show "b * 100 + ((t * 9) mod 65536) div 10 < rescale100 b t * t + t"
    using assms dividend_less_times_div [of t "b * 100 + ((t * 9) mod 65536) div 10"]
    by (simp add: rescale100_def ac_simps)
qed

lemma rescale100_zero: "0 < t \<Longrightarrow> rescale100 0 t = 0"
  using round_term_less [of t] by (simp add: rescale100_def)

lemma rescale100_unit:
  assumes "0 < b"
  shows "rescale100 b (rescale100 b 1) = 1"
proof -
  have t: "rescale100 b 1 = b * 100"
    by (simp add: rescale100_def)
  have "((b * 100 * 9) mod 65536) div 10 < b * 100"
    using assms by (intro round_term_less) simp
  then have "(b * 100 + ((b * 100 * 9) mod 65536) div 10) div (b * 100) = 1"
    by (intro div_nat_eqI) simp_all
  then show ?thesis
    unfolding t by (simp add: rescale100_def [of b "b * 100"])
qed

text \<open>Applying the rescaling to its own result moves it by at most one.\<close>

lemma rescale100_again:
  assumes b: "b < 256" and t: "100 \<le> t" and q: "2 \<le> rescale100 b t"
  defines "r \<equiv> rescale100 b t"
  defines "t' \<equiv> rescale100 b r"
  shows "rescale100 b t' \<le> r + 1" and "r \<le> rescale100 b t' + 1"
proof -
  define R where "R = ((t * 9) mod 65536) div 10"
  define R' where "R' = ((t' * 9) mod 65536) div 10"
  have r_le: "r \<le> b"
    unfolding r_def using t by (rule rescale100_le)
  have r2: "2 \<le> r"
    using q by (simp add: r_def)
  have r9: "(r * 9) mod 65536 = r * 9"
    using r_le b by simp
  have t': "100 \<le> t'"
    unfolding t'_def using r2 r_le by (intro rescale100_ge) simp_all
  have Rt: "R < t"
    unfolding R_def using t by (intro round_term_less) simp
  have Rt': "R' < t'"
    unfolding R'_def using t' by (intro round_term_less) simp
  have 1: "r * t \<le> b * 100 + R"
    using rescale100_bounds(1) [of t b] t by (simp add: r_def R_def)
  have 2: "b * 100 + R < r * t + t"
    using rescale100_bounds(2) [of t b] t by (simp add: r_def R_def)
  have 3: "t' * r \<le> b * 100 + (r * 9) div 10"
    using rescale100_bounds(1) [of r b] r2 by (simp add: t'_def r9)
  have 4: "b * 100 + (r * 9) div 10 < t' * r + r"
    using rescale100_bounds(2) [of r b] r2 by (simp add: t'_def r9)
  have "b * 100 + R' < t' * r + 2 * t'"
    using 4 Rt' t' r_le b by linarith
  then have "b * 100 + R' < (r + 2) * t'"
    by (simp add: algebra_simps)
  then have "rescale100 b t' < r + 2"
    using t' by (simp add: rescale100_def R'_def div_less_iff_less_mult)
  then show "rescale100 b t' \<le> r + 1"
    by simp
  have low: "t' * r \<le> b * 100 + t'"
  proof (cases "r \<le> t'")
    case True
    with 3 show ?thesis
      by linarith
  next
    case False
    then have lt: "t' < r"
      by simp
    show ?thesis
    proof (cases "t' \<le> t")
      case True
      have "r * t \<le> b * 100 + t"
        using 1 Rt by linarith
      then have "(r - 1) * t \<le> b * 100"
        by (simp add: algebra_simps)
      moreover have "(r - 1) * t' \<le> (r - 1) * t"
        using True by simp
      ultimately have "(r - 1) * t' \<le> b * 100"
        by linarith
      then show ?thesis
        using r2 by (simp add: algebra_simps)
    next
      case False
      then have tt: "t + 1 \<le> t'"
        by simp
      have small: "t < 256"
        using tt lt r_le b by linarith
      then have R9: "R = (t * 9) div 10"
        by (simp add: R_def)
      have "(t + 1) * r \<le> t' * r"
        using tt by (intro mult_le_mono1)
      then have "r * t + r \<le> t' * r"
        by (simp add: algebra_simps)
      with 2 3 R9 have "r + (t * 9) div 10 < t + (r * 9) div 10"
        by linarith
      moreover have "t < r"
        using tt lt by linarith
      ultimately show ?thesis
        by linarith
    qed
  qed
  then have "(r - 1) * t' \<le> b * 100 + R'"
    using r2 by (simp add: algebra_simps)
  then have "r - 1 \<le> rescale100 b t'"
    using t' by (simp add: rescale100_def R'_def less_eq_div_iff_mult_less_eq)
  then show "r \<le> rescale100 b t' + 1"
    by simp
qed

section \<open>The scaler on machine words\<close>

lemma unat_rescale:
  "unat ((ucast (b :: u8) * scaleFactor + (t * 9) div 10) div t :: u16)
     = rescale100 (unat b) (unat t)"
proof -
  have b: "unat b < 256"
    by (rule unat_u8_bound)
  have 1: "unat (ucast b * (100 :: u16)) = unat b * 100"
    using b by (simp add: unat_word_ariths)
  have 2: "unat (t * (9 :: u16)) = (unat t * 9) mod 65536"
    by (simp add: unat_word_ariths)
  have 3: "unat ((t * (9 :: u16)) div 10) = ((unat t * 9) mod 65536) div 10"
    by (simp add: unat_div 2)
  have "(unat t * 9) mod 65536 < 65536"
    by simp
  then have "((unat t * 9) mod 65536) div 10 < 6554"
    by linarith
  then have 4: "unat (ucast b * (100 :: u16) + (t * 9) div 10)
      = unat b * 100 + ((unat t * 9) mod 65536) div 10"
    using b by (simp add: unat_word_ariths(1) 1 3)
  show ?thesis
    by (simp add: scaleFactor_def unat_div 4 rescale100_def)
qed

lemma unat_constrain:
  "unat (ucast (constrain x 1 255) :: u8) = max 1 (min 255 (unat x))"
proof -
  have "unat (constrain x 1 255) = max 1 (min 255 (unat x))"
    by (auto simp add: constrain_def word_less_nat_alt)
  moreover have "max 1 (min 255 (unat x)) < 256"
    by simp
  ultimately show ?thesis
    by (simp add: unsigned_ucast_eq take_bit_eq_mod)
qed

lemma setBrightness_raw_cold:
  assumes "warmWhite x \<le> coldWhite x" and "warmWhite x \<noteq> 0"
  shows "\<exists>nw. setBrightness_raw b x = Some (ucast b, nw) \<and>
           unat nw = rescale100 (unat b) (rescale100 (unat (coldWhite x)) (unat (warmWhite x)))"
proof -
  let ?t = "(ucast (coldWhite x) * scaleFactor + (ucast (warmWhite x) * 9) div 10)
              div ucast (warmWhite x) :: u16"
  have w: "0 < unat (warmWhite x)"
    using assms(2) by (simp add: unat_gt_0)
  then have nz: "(ucast (warmWhite x) :: u16) \<noteq> 0"
    by (simp add: word_unat_eq_iff)
  have "100 \<le> unat ?t"
    using w assms(1) by (simp add: unat_rescale rescale100_ge word_le_nat_alt)
  then have t: "?t \<noteq> 0"
    by (auto simp add: word_unat_eq_iff)
  show ?thesis
    using assms(1) nz t
    by (simp add: setBrightness_raw_def Let_def unat_rescale)
qed

lemma setBrightness_raw_warm:
  assumes "coldWhite x < warmWhite x" and "coldWhite x \<noteq> 0"
  shows "\<exists>nc. setBrightness_raw b x = Some (nc, ucast b) \<and>
           unat nc = rescale100 (unat b) (rescale100 (unat (warmWhite x)) (unat (coldWhite x)))"
proof -
  let ?t = "(ucast (warmWhite x) * scaleFactor + (ucast (coldWhite x) * 9) div 10)
              div ucast (coldWhite x) :: u16"
  have c: "0 < unat (coldWhite x)"
    using assms(2) by (simp add: unat_gt_0)
  then have nz: "(ucast (coldWhite x) :: u16) \<noteq> 0"
    by (simp add: word_unat_eq_iff)
  have "100 \<le> unat ?t"
    using c assms(1) by (simp add: unat_rescale rescale100_ge word_less_nat_alt)
  then have t: "?t \<noteq> 0"
    by (auto simp add: word_unat_eq_iff)
  have "\<not> warmWhite x \<le> coldWhite x"
    using assms(1) by simp
  then show ?thesis
    using nz t
    by (simp add: setBrightness_raw_def Let_def unat_rescale)
qed

lemma setBrightness_raw_defined:
  "setBrightness_raw b x \<noteq> None \<longleftrightarrow> coldWhite x \<noteq> 0 \<and> warmWhite x \<noteq> 0"
proof (cases "warmWhite x \<le> coldWhite x")
  case True
  show ?thesis
  proof (cases "warmWhite x = 0")
    case z: True
    then show ?thesis
      by (simp add: setBrightness_raw_def)
  next
    case False
    with True have "coldWhite x \<noteq> 0"
      by auto
    with False setBrightness_raw_cold [OF True False, of b] show ?thesis
      by auto
  qed
next
  case False
  then have lt: "coldWhite x < warmWhite x"
    by simp
  show ?thesis
  proof (cases "coldWhite x = 0")
    case True
    with False show ?thesis
      by (simp add: setBrightness_raw_def)
  next
    case nz: False
    from lt have "warmWhite x \<noteq> 0"
      by auto
    with nz setBrightness_raw_warm [OF lt nz, of b] show ?thesis
      by auto
  qed
qed

lemma setBrightness_cold:
  assumes "warmWhite x \<le> coldWhite x" and "warmWhite x \<noteq> 0"
  shows "\<exists>y. setBrightness b x = Some y \<and>
           unat (coldWhite y) = max 1 (unat b) \<and>
           unat (warmWhite y) =
             max 1 (rescale100 (unat b) (rescale100 (unat (coldWhite x)) (unat (warmWhite x))))"
proof -
  let ?t = "rescale100 (unat (coldWhite x)) (unat (warmWhite x))"
  obtain nw where raw: "setBrightness_raw b x = Some (ucast b, nw)"
    and nw: "unat nw = rescale100 (unat b) ?t"
    using setBrightness_raw_cold [OF assms, of b] by blast
  have b: "unat b < 256"
    by (rule unat_u8_bound)
  have "0 < unat (warmWhite x)"
    using assms(2) by (simp add: unat_gt_0)
  then have "100 \<le> ?t"
    using assms(1) by (intro rescale100_ge) (simp_all add: word_le_nat_alt)
  then have "rescale100 (unat b) ?t \<le> unat b"
    by (rule rescale100_le)
  then have "min 255 (unat nw) = unat nw"
    using b nw by simp
  moreover have "min 255 (unat b) = unat b"
    using b by simp
  ultimately show ?thesis
    using raw nw by (simp add: setBrightness_def unat_constrain)
qed

lemma setBrightness_warm:
  assumes "coldWhite x < warmWhite x" and "coldWhite x \<noteq> 0"
  shows "\<exists>y. setBrightness b x = Some y \<and>
           unat (warmWhite y) = max 1 (unat b) \<and>
           unat (coldWhite y) =
             max 1 (rescale100 (unat b) (rescale100 (unat (warmWhite x)) (unat (coldWhite x))))"
proof -
  let ?t = "rescale100 (unat (warmWhite x)) (unat (coldWhite x))"
  obtain nc where raw: "setBrightness_raw b x = Some (nc, ucast b)"
    and nc: "unat nc = rescale100 (unat b) ?t"
    using setBrightness_raw_warm [OF assms, of b] by blast
  have b: "unat b < 256"
    by (rule unat_u8_bound)
  have "0 < unat (coldWhite x)"
    using assms(2) by (simp add: unat_gt_0)
  then have "100 \<le> ?t"
    using assms(1) by (intro rescale100_ge) (simp_all add: word_less_nat_alt)
  then have "rescale100 (unat b) ?t \<le> unat b"
    by (rule rescale100_le)
  then have "min 255 (unat nc) = unat nc"
    using b nc by simp
  moreover have "min 255 (unat b) = unat b"
    using b by simp
  ultimately show ?thesis
    using raw nc by (simp add: setBrightness_def unat_constrain)
qed

lemma setBrightness_defined:
  "setBrightness b x \<noteq> None \<longleftrightarrow> coldWhite x \<noteq> 0 \<and> warmWhite x \<noteq> 0"
  using setBrightness_raw_defined [of b x]
  by (auto simp add: setBrightness_def split: option.splits)

lemma setBrightness_nonzero:
  assumes "setBrightness b x = Some y"
  shows "coldWhite y \<noteq> 0 \<and> warmWhite y \<noteq> 0"
proof -
  obtain nc nw where y: "y = \<lparr>coldWhite = ucast (constrain nc 1 255),
                               warmWhite = ucast (constrain nw 1 255)\<rparr>"
    using assms by (auto simp add: setBrightness_def split: option.splits)
  have "0 < unat (coldWhite y)" and "0 < unat (warmWhite y)"
    unfolding y by (simp_all add: unat_constrain)
  then show ?thesis
    by (simp add: unat_gt_0)
qed

lemma rescale100_self:
  assumes "0 < n" "n < 256"
  shows "rescale100 n n = 100"
proof -
  have "(n * 9) mod 65536 = n * 9"
    using assms by simp
  moreover have "(n * 100 + (n * 9) div 10) div n = 100"
    using assms by (intro div_nat_eqI) simp_all
  ultimately show ?thesis
    by (simp add: rescale100_def)
qed

lemma rescale100_100: "rescale100 n 100 = n"
  by (simp add: rescale100_def)

lemma rescale100_fix:
  assumes b: "b < 256" and t: "100 \<le> t"
  defines "y \<equiv> max 1 (rescale100 b t)"
  defines "z \<equiv> max 1 (rescale100 b (rescale100 (max 1 b) y))"
  shows "z \<le> y + 1 \<and> y \<le> z + 1"
proof (cases "b = 0")
  case True
  have "rescale100 0 t = 0"
    using t by (intro rescale100_zero) simp
  then have "y = 1"
    using True by (simp add: y_def)
  moreover have "rescale100 0 (rescale100 1 1) = 0"
    by (simp add: rescale100_def)
  ultimately show ?thesis
    using True by (simp add: z_def)
next
  case False
  then have B: "max 1 b = b" and pos: "0 < b"
    by simp_all
  show ?thesis
  proof (cases "2 \<le> rescale100 b t")
    case True
    then have y: "y = rescale100 b t"
      by (simp add: y_def)
    from rescale100_again [OF b t True] show ?thesis
      unfolding z_def B y by simp
  next
    case False
    then have y: "y = 1"
      by (simp add: y_def)
    show ?thesis
      unfolding z_def B y using rescale100_unit [OF pos] by simp
  qed
qed

section \<open>Properties of the scaler\<close>

text \<open>
  C1. For every target brightness and every input whose two channels are both in 1..255,
  \<open>setBrightness\<close> returns a pair whose two channels are in 1..255 (also for the target 0).
  The channel that is dominant in the input (cold on a tie) holds the target brightness
  before the final \<open>constrain\<close>; the result is that pair with each channel constrained to
  1..255, so its dominant channel is the target raised to at least 1, and it is at least as
  large as the other channel.
\<close>

theorem scale_range_and_dominance:
  assumes "coldWhite x \<noteq> 0" and "warmWhite x \<noteq> 0"
  shows "\<exists>nc nw y. setBrightness_raw b x = Some (nc, nw) \<and> setBrightness b x = Some y \<and>
           y = \<lparr>coldWhite = ucast (constrain nc 1 255),
                warmWhite = ucast (constrain nw 1 255)\<rparr> \<and>
           1 \<le> unat (coldWhite y) \<and> unat (coldWhite y) \<le> 255 \<and>
           1 \<le> unat (warmWhite y) \<and> unat (warmWhite y) \<le> 255 \<and>
           (if warmWhite x \<le> coldWhite x
            then nc = ucast b \<and> unat (coldWhite y) = max 1 (unat b) \<and>
                 warmWhite y \<le> coldWhite y
            else nw = ucast b \<and> unat (warmWhite y) = max 1 (unat b) \<and>
                 coldWhite y \<le> warmWhite y)"
proof (cases "warmWhite x \<le> coldWhite x")
  case True
  let ?t = "rescale100 (unat (coldWhite x)) (unat (warmWhite x))"
  obtain nw where raw: "setBrightness_raw b x = Some (ucast b, nw)"
    using setBrightness_raw_cold [OF True assms(2), of b] by blast
  obtain y where y: "setBrightness b x = Some y"
    and c: "unat (coldWhite y) = max 1 (unat b)"
    and w: "unat (warmWhite y) = max 1 (rescale100 (unat b) ?t)"
    using setBrightness_cold [OF True assms(2), of b] by blast
  have "0 < unat (warmWhite x)"
    using assms(2) by (simp add: unat_gt_0)
  then have "100 \<le> ?t"
    using True by (intro rescale100_ge) (simp_all add: word_le_nat_alt)
  then have le: "rescale100 (unat b) ?t \<le> unat b"
    by (rule rescale100_le)
  have "unat (coldWhite y) < 256" and "unat (warmWhite y) < 256"
    by (rule unat_u8_bound)+
  moreover have "warmWhite y \<le> coldWhite y"
    using le c w by (simp add: word_le_nat_alt)
  moreover have "y = \<lparr>coldWhite = ucast (constrain (ucast b) 1 255),
                         warmWhite = ucast (constrain nw 1 255)\<rparr>"
    using y raw by (simp add: setBrightness_def)
  ultimately show ?thesis
    using True raw y c w by simp
next
  case False
  then have lt: "coldWhite x < warmWhite x"
    by simp
  let ?t = "rescale100 (unat (warmWhite x)) (unat (coldWhite x))"
  obtain nc where raw: "setBrightness_raw b x = Some (nc, ucast b)"
    using setBrightness_raw_warm [OF lt assms(1), of b] by blast
  obtain y where y: "setBrightness b x = Some y"
    and w: "unat (warmWhite y) = max 1 (unat b)"
    and c: "unat (coldWhite y) = max 1 (rescale100 (unat b) ?t)"
    using setBrightness_warm [OF lt assms(1), of b] by blast
  have "0 < unat (coldWhite x)"
    using assms(1) by (simp add: unat_gt_0)
  then have "100 \<le> ?t"
    using lt by (intro rescale100_ge) (simp_all add: word_less_nat_alt)
  then have le: "rescale100 (unat b) ?t \<le> unat b"
    by (rule rescale100_le)
  have "unat (coldWhite y) < 256" and "unat (warmWhite y) < 256"
    by (rule unat_u8_bound)+
  moreover have "coldWhite y \<le> warmWhite y"
    using le c w by (simp add: word_le_nat_alt)
  moreover have "y = \<lparr>coldWhite = ucast (constrain nc 1 255),
                         warmWhite = ucast (constrain (ucast b) 1 255)\<rparr>"
    using y raw by (simp add: setBrightness_def)
  ultimately show ?thesis
    using False raw y c w by simp
qed

theorem scale_range_and_dominance_witness:
  "coldWhite \<lparr>coldWhite = 255, warmWhite = 128\<rparr> \<noteq> 0 \<and>
   warmWhite \<lparr>coldWhite = 255, warmWhite = 128\<rparr> \<noteq> 0 \<and>
   (\<exists>nc nw y. setBrightness_raw 0 \<lparr>coldWhite = 255, warmWhite = 128\<rparr> = Some (nc, nw) \<and>
      setBrightness 0 \<lparr>coldWhite = 255, warmWhite = 128\<rparr> = Some y \<and>
      y = \<lparr>coldWhite = ucast (constrain nc 1 255), warmWhite = ucast (constrain nw 1 255)\<rparr> \<and>
      nc = 0 \<and> unat (coldWhite y) = 1 \<and> 1 \<le> unat (warmWhite y) \<and>
      warmWhite y \<le> coldWhite y)"
  using scale_range_and_dominance [of "\<lparr>coldWhite = 255, warmWhite = 128\<rparr>" 0]
  by (auto simp add: word_le_nat_alt)

text \<open>
  C2, as the code has it. With only one channel above zero the first division already has
  the divisor 0: the recessive channel is the divisor. \<open>setBrightness\<close> divides by zero
  exactly when one of the two channels of its argument is 0; with both channels above zero
  neither of its two divisions does.
\<close>

theorem scale_defined_iff:
  "setBrightness b x \<noteq> None \<longleftrightarrow> coldWhite x \<noteq> 0 \<and> warmWhite x \<noteq> 0"
  by (rule setBrightness_defined)

theorem scale_defined_iff_witness:
  "setBrightness 128 \<lparr>coldWhite = 128, warmWhite = 128\<rparr> \<noteq> None \<and>
   setBrightness 128 \<lparr>coldWhite = 0, warmWhite = 128\<rparr> = None"
  using scale_defined_iff [of 128 "\<lparr>coldWhite = 128, warmWhite = 128\<rparr>"]
    scale_defined_iff [of 128 "\<lparr>coldWhite = 0, warmWhite = 128\<rparr>"]
  by simp

text \<open>
  C2 as stated fails: the colour (5, 0) has a channel above zero, and scaling it divides by
  its warm channel, which is 0.
\<close>

theorem scale_one_channel_counterexample:
  "(0 < coldWhite \<lparr>coldWhite = 5, warmWhite = 0\<rparr> \<or> 0 < warmWhite \<lparr>coldWhite = 5, warmWhite = 0\<rparr>) \<and>
   setBrightness 128 \<lparr>coldWhite = 5, warmWhite = 0\<rparr> = None"
  by (simp add: setBrightness_def setBrightness_raw_def)

text \<open>
  C5. For every brightness and every input with both channels in 1..255, scaling the result
  of a scaling once more with the same brightness changes each channel by at most 1.
\<close>

theorem scale_idempotent:
  assumes "coldWhite x \<noteq> 0" and "warmWhite x \<noteq> 0"
  shows "\<exists>y z. setBrightness b x = Some y \<and> setBrightness b y = Some z \<and>
           \<bar>uint (coldWhite z) - uint (coldWhite y)\<bar> \<le> 1 \<and>
           \<bar>uint (warmWhite z) - uint (warmWhite y)\<bar> \<le> 1"
proof -
  have b: "unat b < 256"
    by (rule unat_u8_bound)
  have goal: "\<bar>uint (coldWhite z) - uint (coldWhite y)\<bar> \<le> 1 \<and>
              \<bar>uint (warmWhite z) - uint (warmWhite y)\<bar> \<le> 1"
    if "unat (coldWhite z) \<le> unat (coldWhite y) + 1" "unat (coldWhite y) \<le> unat (coldWhite z) + 1"
       "unat (warmWhite z) \<le> unat (warmWhite y) + 1" "unat (warmWhite y) \<le> unat (warmWhite z) + 1"
    for y z :: PWMdata
    using that unfolding uint_nat by linarith
  show ?thesis
  proof (cases "warmWhite x \<le> coldWhite x")
    case True
    let ?t = "rescale100 (unat (coldWhite x)) (unat (warmWhite x))"
    obtain y where y: "setBrightness b x = Some y"
      and yc: "unat (coldWhite y) = max 1 (unat b)"
      and yw: "unat (warmWhite y) = max 1 (rescale100 (unat b) ?t)"
      using setBrightness_cold [OF True assms(2), of b] by blast
    have "0 < unat (warmWhite x)"
      using assms(2) by (simp add: unat_gt_0)
    then have t: "100 \<le> ?t"
      using True by (intro rescale100_ge) (simp_all add: word_le_nat_alt)
    then have "rescale100 (unat b) ?t \<le> unat b"
      by (rule rescale100_le)
    then have dom: "warmWhite y \<le> coldWhite y"
      using yc yw by (simp add: word_le_nat_alt)
    have nz: "warmWhite y \<noteq> 0"
      using setBrightness_nonzero [OF y] by simp
    obtain z where z: "setBrightness b y = Some z"
      and zc: "unat (coldWhite z) = max 1 (unat b)"
      and zw: "unat (warmWhite z) =
          max 1 (rescale100 (unat b) (rescale100 (unat (coldWhite y)) (unat (warmWhite y))))"
      using setBrightness_cold [OF dom nz, of b] by blast
    have "unat (warmWhite z) \<le> unat (warmWhite y) + 1 \<and> unat (warmWhite y) \<le> unat (warmWhite z) + 1"
      using rescale100_fix [OF b t] unfolding zw yc yw by simp
    then show ?thesis
      using y z yc zc by (intro exI [of _ y] exI [of _ z] conjI goal [THEN conjunct1] goal [THEN conjunct2]) simp_all
  next
    case False
    then have lt: "coldWhite x < warmWhite x"
      by simp
    let ?t = "rescale100 (unat (warmWhite x)) (unat (coldWhite x))"
    obtain y where y: "setBrightness b x = Some y"
      and yw: "unat (warmWhite y) = max 1 (unat b)"
      and yc: "unat (coldWhite y) = max 1 (rescale100 (unat b) ?t)"
      using setBrightness_warm [OF lt assms(1), of b] by blast
    have "0 < unat (coldWhite x)"
      using assms(1) by (simp add: unat_gt_0)
    then have t: "100 \<le> ?t"
      using lt by (intro rescale100_ge) (simp_all add: word_less_nat_alt)
    then have le: "rescale100 (unat b) ?t \<le> unat b"
      by (rule rescale100_le)
    have nz: "coldWhite y \<noteq> 0" "warmWhite y \<noteq> 0"
      using setBrightness_nonzero [OF y] by simp_all
    show ?thesis
    proof (cases "coldWhite y < warmWhite y")
      case True
      obtain z where z: "setBrightness b y = Some z"
        and zw: "unat (warmWhite z) = max 1 (unat b)"
        and zc: "unat (coldWhite z) =
            max 1 (rescale100 (unat b) (rescale100 (unat (warmWhite y)) (unat (coldWhite y))))"
        using setBrightness_warm [OF True nz(1), of b] by blast
      have "unat (coldWhite z) \<le> unat (coldWhite y) + 1 \<and> unat (coldWhite y) \<le> unat (coldWhite z) + 1"
        using rescale100_fix [OF b t] unfolding zc yc yw by simp
      then show ?thesis
        using y z yw zw by (intro exI [of _ y] exI [of _ z] conjI goal [THEN conjunct1] goal [THEN conjunct2]) simp_all
    next
      case False
      then have dom: "warmWhite y \<le> coldWhite y"
        by simp
      have "unat (coldWhite y) \<le> unat (warmWhite y)"
        using le yc yw by simp
      moreover have "unat (warmWhite y) \<le> unat (coldWhite y)"
        using dom by (simp add: word_le_nat_alt)
      ultimately have eq: "unat (coldWhite y) = max 1 (unat b)"
        using yw by linarith
      obtain z where z: "setBrightness b y = Some z"
        and zc: "unat (coldWhite z) = max 1 (unat b)"
        and zw: "unat (warmWhite z) =
            max 1 (rescale100 (unat b) (rescale100 (unat (coldWhite y)) (unat (warmWhite y))))"
        using setBrightness_cold [OF dom nz(2), of b] by blast
      have "rescale100 (max 1 (unat b)) (max 1 (unat b)) = 100"
        using b by (intro rescale100_self) simp_all
      then have "unat (warmWhite z) = max 1 (unat b)"
        unfolding zw eq yw by (simp add: rescale100_100)
      then show ?thesis
        using y z yw zc eq by (intro exI [of _ y] exI [of _ z] conjI goal [THEN conjunct1] goal [THEN conjunct2]) simp_all
    qed
  qed
qed

theorem scale_idempotent_witness:
  "coldWhite \<lparr>coldWhite = 200, warmWhite = 3\<rparr> \<noteq> 0 \<and>
   warmWhite \<lparr>coldWhite = 200, warmWhite = 3\<rparr> \<noteq> 0 \<and>
   (\<exists>y z. setBrightness 255 \<lparr>coldWhite = 200, warmWhite = 3\<rparr> = Some y \<and>
      setBrightness 255 y = Some z \<and>
      \<bar>uint (coldWhite z) - uint (coldWhite y)\<bar> \<le> 1 \<and>
      \<bar>uint (warmWhite z) - uint (warmWhite y)\<bar> \<le> 1)"
  using scale_idempotent [of "\<lparr>coldWhite = 200, warmWhite = 3\<rparr>" 255]
  by simp

section \<open>What a fade leaves alone\<close>

lemma fadePWM_loop_frame:
  "whiteColor (fadePWM_loop i cc cw sc sw sd s) = whiteColor s \<and>
   brightness (fadePWM_loop i cc cw sc sw sd s) = brightness s \<and>
   current_preset (fadePWM_loop i cc cw sc sw sd s) = current_preset s \<and>
   is_on (fadePWM_loop i cc cw sc sw sd s) = is_on s \<and>
   is_night (fadePWM_loop i cc cw sc sw sd s) = is_night s \<and>
   eeprom (fadePWM_loop i cc cw sc sw sd s) = eeprom s \<and>
   eeprom_out (fadePWM_loop i cc cw sc sw sd s) = eeprom_out s"
proof (induction i cc cw sc sw sd s rule: fadePWM_loop.induct)
  case (1 i cc cw sc sw sd s)
  show ?case
  proof (cases "i \<le> 50")
    case True
    with 1 show ?thesis
      by (subst (1 2 3 4 5 6 7) fadePWM_loop.simps) (simp add: setPWM_def mdelay_def)
  next
    case False
    then show ?thesis
      by (subst (1 2 3 4 5 6 7) fadePWM_loop.simps) simp
  qed
qed

lemma fadePWM_frame:
  "whiteColor (fadePWM a b d s) = whiteColor s \<and>
   brightness (fadePWM a b d s) = brightness s \<and>
   current_preset (fadePWM a b d s) = current_preset s \<and>
   is_on (fadePWM a b d s) = is_on s \<and>
   is_night (fadePWM a b d s) = is_night s \<and>
   eeprom (fadePWM a b d s) = eeprom s \<and>
   eeprom_out (fadePWM a b d s) = eeprom_out s"
  by (simp add: fadePWM_def Let_def setPWM_def fadePWM_loop_frame)

section \<open>What a fade sends to the output\<close>

lemma fadePWM_loop_out:
  assumes "i \<le> 51"
  shows "pwm_out (fadePWM_loop i cc cw sc sw sd s) =
           pwm_out s @
           map (\<lambda>k. \<lparr>coldWhite = ucast (constrain_s (cc + of_nat k * sc) 1 255),
                      warmWhite = ucast (constrain_s (cw + of_nat k * sw) 1 255)\<rparr>)
             [0..<51 - unat i]"
  using assms
proof (induction i cc cw sc sw sd s rule: fadePWM_loop.induct)
  case (1 i cc cw sc sw sd s)
  show ?case
  proof (cases "i \<le> 50")
    case True
    then have u: "unat i \<le> 50"
      by (simp add: word_le_nat_alt)
    then have u1: "unat (i + 1) = unat i + 1"
      by (simp add: unat_word_ariths)
    then have le: "i + 1 \<le> 51"
      using u by (simp add: word_le_nat_alt)
    have n: "51 - unat i = Suc (51 - unat (i + 1))"
      using u u1 by simp
    show ?thesis
      apply (subst fadePWM_loop.simps)
      apply (simp only: True if_True "1.IH" [OF True le] n map_upt_Suc)
      apply (simp add: setPWM_def mdelay_def algebra_simps)
      done
  next
    case False
    with "1.prems" have "unat i = 51"
      by (simp add: word_le_nat_alt)
    with False show ?thesis
      by (subst fadePWM_loop.simps) simp
  qed
qed

lemma fadePWM_out:
  "pwm_out (fadePWM start stop d s) =
     pwm_out s @
     map (\<lambda>k. \<lparr>coldWhite = ucast (constrain_s
                    (ucast (coldWhite start)
                      + of_nat k * sdiv16 (ucast (coldWhite stop) - ucast (coldWhite start)) 50) 1 255),
                warmWhite = ucast (constrain_s
                    (ucast (warmWhite start)
                      + of_nat k * sdiv16 (ucast (warmWhite stop) - ucast (warmWhite start)) 50) 1 255)\<rparr>)
       [0..<51] @ [stop]"
  by (simp add: fadePWM_def Let_def setPWM_def fadePWM_loop_out)

lemma unat_constrain_s:
  "unat (ucast (constrain_s x 1 255) :: u8) = nat (max 1 (min 255 (sint x)))"
proof -
  consider "sint x < 1" | "255 < sint x" | "1 \<le> sint x" "sint x \<le> 255"
    by linarith
  then show ?thesis
  proof cases
    case 1
    then show ?thesis
      by (simp add: constrain_s_def word_sless_alt)
  next
    case 2
    then show ?thesis
      by (simp add: constrain_s_def word_sless_alt)
  next
    case 3
    then have c: "constrain_s x 1 255 = x"
      by (simp add: constrain_s_def word_sless_alt)
    have "take_bit 16 (sint x) = sint x"
      using 3 by (intro take_bit_int_eq_self) simp_all
    then have "uint x = sint x"
      using uint_sint [of x] by simp
    then have "unat x = nat (sint x)"
      by (simp add: unat_eq_nat_uint)
    then show ?thesis
      using 3 by (simp add: c unsigned_ucast_eq take_bit_eq_mod)
  qed
qed

lemma s16_self:
  assumes "- 32768 \<le> k" and "k < 32768"
  shows "signed_take_bit 15 (k :: int) = k"
  using assms by (intro signed_take_bit_int_eq_self) simp_all

lemma uint_u8_bound: "uint (x :: u8) < 256"
  using unsigned_less [of x, where 'a = int] by simp

lemma sint_fade_val:
  assumes k: "k \<le> 50" and lo: "- 5 \<le> sint st" and hi: "sint st \<le> 5"
  shows "sint (ucast (a :: u8) + of_nat k * st :: u16) = int (unat a) + int k * sint st"
proof -
  have a: "uint a < 256" "0 \<le> uint a"
    by (simp_all add: uint_u8_bound)
  have "\<bar>int k * sint st\<bar> \<le> 50 * 5"
    unfolding abs_mult using k lo hi by (intro mult_mono) simp_all
  then have p: "- 250 \<le> int k * sint st" "int k * sint st \<le> 250"
    by linarith+
  have "sint (of_nat k :: u16) = int k"
    using k by (simp add: signed_of_nat s16_self)
  then have "sint (of_nat k * st :: u16) = int k * sint st"
    using p by (simp add: sint_word_mult s16_self)
  moreover have "signed_take_bit 15 (uint a + int k * sint st) = uint a + int k * sint st"
    using a p by (intro s16_self) linarith+
  ultimately show ?thesis
    by (simp add: sint_word_add)
qed

lemma sint_step_up:
  assumes "(a :: u8) \<le> b"
  shows "sint (sdiv16 (ucast b - ucast a) 50) = (uint b - uint a) div 50"
proof -
  have a: "uint a < 256" "0 \<le> uint a" and b: "uint b < 256" "0 \<le> uint b"
    by (simp_all add: uint_u8_bound)
  have le: "uint a \<le> uint b"
    using assms by (simp add: word_le_def)
  have "signed_take_bit 15 (uint b - uint a) = uint b - uint a"
    using a b by (intro s16_self) linarith+
  then have d: "sint (ucast b - ucast a :: u16) = uint b - uint a"
    by (simp add: sint_word_diff)
  have q: "(uint b - uint a) sdiv 50 = (uint b - uint a) div 50"
    using le by (simp add: signed_divide_int_def sgn_if)
  have "(uint b - uint a) div 50 \<le> 5" and "0 \<le> (uint b - uint a) div 50"
    using a b le by linarith+
  then have "signed_take_bit 15 ((uint b - uint a) div 50) = (uint b - uint a) div 50"
    by (intro s16_self) linarith+
  then show ?thesis
    by (simp add: sdiv16_def d q signed_of_int)
qed

lemma fade_cold_values:
  assumes "coldWhite A \<le> coldWhite B" and "k \<le> 50"
  shows "unat (ucast (constrain_s
            (ucast (coldWhite A)
               + of_nat k * sdiv16 (ucast (coldWhite B) - ucast (coldWhite A)) 50) 1 255) :: u8)
         = nat (max 1 (min 255 (uint (coldWhite A)
               + int k * ((uint (coldWhite B) - uint (coldWhite A)) div 50))))"
proof -
  let ?st = "sdiv16 (ucast (coldWhite B) - ucast (coldWhite A)) 50"
  have st: "sint ?st = (uint (coldWhite B) - uint (coldWhite A)) div 50"
    using assms(1) by (rule sint_step_up)
  have "uint (coldWhite A) \<le> uint (coldWhite B)"
    using assms(1) by (simp add: word_le_def)
  moreover have "uint (coldWhite B) < 256" "0 \<le> uint (coldWhite A)"
    by (simp_all add: uint_u8_bound)
  ultimately have "- 5 \<le> sint ?st" "sint ?st \<le> 5"
    unfolding st by linarith+
  then have "sint (ucast (coldWhite A) + of_nat k * ?st :: u16)
      = int (unat (coldWhite A)) + int k * sint ?st"
    using assms(2) by (intro sint_fade_val)
  then show ?thesis
    by (simp add: unat_constrain_s st)
qed

text \<open>
  C3. For every start colour, stop colour and duration, \<open>fadePWM\<close> hands 51 values to
  \<open>setPWM\<close>, each with both channels in 1..255, and after them the stop colour itself; the
  last value handed to \<open>setPWM\<close> is the stop colour, whatever the rounding of the steps.
\<close>

theorem fade_emits_steps_then_stop:
  "\<exists>vals. pwm_out (fadePWM start stop d s) = pwm_out s @ vals @ [stop] \<and>
      length vals = 51 \<and>
      (\<forall>v \<in> set vals. 1 \<le> unat (coldWhite v) \<and> unat (coldWhite v) \<le> 255 \<and>
                       1 \<le> unat (warmWhite v) \<and> unat (warmWhite v) \<le> 255) \<and>
      last (pwm_out (fadePWM start stop d s)) = stop"
proof -
  have r: "1 \<le> nat (max 1 (min 255 k))" "nat (max 1 (min 255 k)) \<le> 255" for k :: int
    by linarith+
  show ?thesis
    unfolding fadePWM_out
    by (intro exI conjI refl) (auto simp add: unat_constrain_s r simp del: upt_Suc)
qed

theorem fade_emits_steps_then_stop_witness:
  "\<exists>vals. pwm_out (fadePWM off \<lparr>coldWhite = 128, warmWhite = 128\<rparr> 500 init_ctrl)
            = vals @ [\<lparr>coldWhite = 128, warmWhite = 128\<rparr>] \<and>
      length vals = 51 \<and>
      (\<forall>v \<in> set vals. 1 \<le> unat (coldWhite v) \<and> unat (coldWhite v) \<le> 255 \<and>
                       1 \<le> unat (warmWhite v) \<and> unat (warmWhite v) \<le> 255) \<and>
      last (pwm_out (fadePWM off \<lparr>coldWhite = 128, warmWhite = 128\<rparr> 500 init_ctrl))
        = \<lparr>coldWhite = 128, warmWhite = 128\<rparr>"
  using fade_emits_steps_then_stop [of off "\<lparr>coldWhite = 128, warmWhite = 128\<rparr>" 500 init_ctrl]
  by (simp add: init_ctrl_def)

text \<open>
  C4. When the cold channel of the start colour is below that of the stop colour, the cold
  channels of the 52 values \<open>fadePWM\<close> hands to \<open>setPWM\<close> (the 51 steps and the final stop
  colour) never decrease.
\<close>

theorem fade_cold_monotone:
  assumes "coldWhite A < coldWhite B"
  shows "length (drop (length (pwm_out s)) (pwm_out (fadePWM A B d s))) = 52 \<and>
         sorted (map (\<lambda>v. unat (coldWhite v))
                  (drop (length (pwm_out s)) (pwm_out (fadePWM A B d s))))"
proof -
  let ?a = "uint (coldWhite A)" and ?b = "uint (coldWhite B)"
  let ?st = "(?b - ?a) div 50"
  let ?v = "\<lambda>k. nat (max 1 (min 255 (?a + int k * ?st)))"
  have le: "coldWhite A \<le> coldWhite B"
    using assms by simp
  have ab: "?a < ?b"
    using assms by (simp add: word_less_def)
  have bnd: "0 \<le> ?a" "?b < 256"
    by (simp_all add: uint_u8_bound)
  have st: "0 \<le> ?st"
    using ab by simp
  have vals: "map (\<lambda>v. unat (coldWhite v))
      (drop (length (pwm_out s)) (pwm_out (fadePWM A B d s)))
      = map ?v [0..<51] @ [unat (coldWhite B)]"
    using fade_cold_values [OF le]
    by (simp add: fadePWM_out o_def cong: map_cong)
  have mono: "?v i \<le> ?v j" if "i \<le> j" for i j
  proof -
    have "int i * ?st \<le> int j * ?st"
      using that st by (intro mult_right_mono) simp_all
    then show ?thesis
      by linarith
  qed
  have "sorted_wrt (\<lambda>i j. ?v i \<le> ?v j) [0..<51]"
    by (rule sorted_wrt_mono_rel [OF _ sorted_wrt_upt]) (simp add: mono)
  then have 1: "sorted (map ?v [0..<51])"
    by (simp add: sorted_map)
  have 2: "?v k \<le> unat (coldWhite B)" if "k < 51" for k
  proof -
    have "int k * ?st \<le> 50 * ?st"
      using that st by (intro mult_right_mono) simp_all
    moreover have "50 * ?st \<le> ?b - ?a"
      by simp
    ultimately have "?a + int k * ?st \<le> ?b"
      by linarith
    then have "max 1 (min 255 (?a + int k * ?st)) \<le> ?b"
      using ab bnd by linarith
    then show ?thesis
      unfolding uint_nat by linarith
  qed
  have "sorted (map ?v [0..<51] @ [unat (coldWhite B)])"
    using 1 2 by (auto simp add: sorted_append)
  then show ?thesis
    unfolding vals by (simp add: fadePWM_out)
qed

theorem fade_cold_monotone_witness:
  "coldWhite off < coldWhite \<lparr>coldWhite = 128, warmWhite = 128\<rparr> \<and>
   length (pwm_out (fadePWM off \<lparr>coldWhite = 128, warmWhite = 128\<rparr> 500 init_ctrl)) = 52 \<and>
   sorted (map (\<lambda>v. unat (coldWhite v))
             (pwm_out (fadePWM off \<lparr>coldWhite = 128, warmWhite = 128\<rparr> 500 init_ctrl)))"
  using fade_cold_monotone [of off "\<lparr>coldWhite = 128, warmWhite = 128\<rparr>" init_ctrl 500]
  by (simp add: init_ctrl_def off_def)

section \<open>The night light\<close>

lemma night_color: "setBrightness 5 (preset 4) = Some \<lparr>coldWhite = 1, warmWhite = 5\<rparr>"
  by (simp add: setBrightness_def setBrightness_raw_def preset_def presets_def scaleFactor_def
      constrain_def word_le_nat_alt word_less_nat_alt)

text \<open>
  C6. Leaving night mode (command 8 while \<open>is_night\<close> holds) sets \<open>whiteColor\<close> to the colour
  read from the EEPROM and \<open>brightness\<close> to the larger channel of that loaded colour: the
  global has already been overwritten when \<open>getBrightness\<close> reads its warm channel, so nothing
  of the colour before the restore enters the result.
\<close>

theorem leave_night_restores:
  assumes "is_night s"
  shows "\<exists>s'. processNECCommand 8 s = Some s' \<and>
           whiteColor s' = readColor s \<and>
           brightness s' = max (coldWhite (readColor s)) (warmWhite (readColor s)) \<and>
           \<not> is_night s'"
  using assms
  by (auto simp add: processNECCommand_def Let_def night_color fadePWM_frame getBrightness_def
      readColor_def EEPROM_read_def max_def not_less)

theorem leave_night_restores_witness:
  "is_night (init_ctrl\<lparr>whiteColor := \<lparr>coldWhite = 10, warmWhite = 200\<rparr>, is_night := True,
                       eeprom := (\<lambda>a. if a = 0 then 100 else 50)\<rparr>) \<and>
   (\<exists>s'. processNECCommand 8
           (init_ctrl\<lparr>whiteColor := \<lparr>coldWhite = 10, warmWhite = 200\<rparr>, is_night := True,
                       eeprom := (\<lambda>a. if a = 0 then 100 else 50)\<rparr>) = Some s' \<and>
         whiteColor s' = \<lparr>coldWhite = 100, warmWhite = 50\<rparr> \<and> brightness s' = 100 \<and>
         \<not> is_night s')"
  using leave_night_restores [of "init_ctrl\<lparr>whiteColor := \<lparr>coldWhite = 10, warmWhite = 200\<rparr>,
                       is_night := True, eeprom := (\<lambda>a. if a = 0 then 100 else 50)\<rparr>"]
  by (simp add: readColor_def EEPROM_read_def EEPROM_COLD_WHITE_ADDR_def
      EEPROM_WARM_WHITE_ADDR_def max_def word_le_nat_alt)

section \<open>Colour temperature steps\<close>

lemma colder_whiteColor:
  "whiteColor (colder s) =
     \<lparr>coldWhite = (if unat (coldWhite (whiteColor s)) < 251
                    then coldWhite (whiteColor s) + 4 else 255),
      warmWhite = (if 4 < unat (warmWhite (whiteColor s))
                    then warmWhite (whiteColor s) - 4 else 1)\<rparr>"
proof -
  let ?c = "coldWhite (whiteColor s)" and ?w = "warmWhite (whiteColor s)"
  have c: "unat ?c < 251 \<Longrightarrow> ?c + 4 \<noteq> 0"
    using unat_add4 [of ?c] by (auto simp: word_unat_eq_iff)
  have "?w - 4 = 0 \<longleftrightarrow> ?w = 4"
    by auto
  then have w: "unat ?w = 4 \<longleftrightarrow> ?w - 4 = 0"
    by (simp add: word_unat_eq_iff)
  show ?thesis
    using c w
    by (cases "whiteColor s")
       (auto simp add: colder_def Let_def increment_def setPWM_def word_less_nat_alt
          word_le_nat_alt ucast_add4 ucast_sub4)
qed

lemma colder_brightness:
  "brightness (colder s) =
     max (coldWhite (whiteColor (colder s))) (warmWhite (whiteColor (colder s)))"
  by (auto simp add: colder_def Let_def setPWM_def max_def word_le_nat_alt word_less_nat_alt
        word_unat_eq_iff)

text \<open>
  C8. In every state the shift-colder command (25) sets the cold channel to
  \<open>min (cold + 4) 255\<close> and the warm channel to \<open>max (warm - 4) 0\<close>, each raised to at least
  1, and then sets \<open>brightness\<close> to the larger of the two new channels. The channels are read
  as integers, so the subtraction is the mathematical one.
\<close>

theorem shift_colder_saturates:
  "\<exists>s'. processNECCommand 25 s = Some s' \<and>
     uint (coldWhite (whiteColor s')) = max 1 (min (uint (coldWhite (whiteColor s)) + 4) 255) \<and>
     uint (warmWhite (whiteColor s')) = max 1 (max (uint (warmWhite (whiteColor s)) - 4) 0) \<and>
     uint (brightness s') =
       max (uint (coldWhite (whiteColor s'))) (uint (warmWhite (whiteColor s')))"
proof -
  let ?c = "coldWhite (whiteColor s)" and ?w = "warmWhite (whiteColor s)"
  have c: "unat ?c < 256" and w: "unat ?w < 256"
    by (rule unat_u8_bound)+
  have 1: "processNECCommand 25 s = Some (colder s)"
    by (simp add: processNECCommand_def)
  have "unat (coldWhite (whiteColor (colder s))) = max 1 (min (unat ?c + 4) 255)"
    using c by (simp add: colder_whiteColor unat_add4)
  then have 2: "uint (coldWhite (whiteColor (colder s))) = max 1 (min (uint ?c + 4) 255)"
    unfolding uint_nat by linarith
  have "unat (warmWhite (whiteColor (colder s))) = max 1 (unat ?w - 4)"
    by (simp add: colder_whiteColor unat_sub4)
  then have 3: "uint (warmWhite (whiteColor (colder s))) = max 1 (max (uint ?w - 4) 0)"
    unfolding uint_nat by linarith
  have 4: "uint (brightness (colder s)) =
      max (uint (coldWhite (whiteColor (colder s)))) (uint (warmWhite (whiteColor (colder s))))"
    by (simp add: colder_brightness max_def word_le_def)
  from 1 2 3 4 show ?thesis
    by simp
qed

text \<open>The scenario of the specification: at cold 253 and warm 2 the step gives 255 and 1.\<close>

theorem shift_colder_saturates_witness:
  "\<exists>s'. processNECCommand 25 (init_ctrl\<lparr>whiteColor := \<lparr>coldWhite = 253, warmWhite = 2\<rparr>\<rparr>)
          = Some s' \<and>
        uint (coldWhite (whiteColor s')) = 255 \<and> uint (warmWhite (whiteColor s')) = 1 \<and>
        uint (brightness s') = 255"
  using shift_colder_saturates [of "init_ctrl\<lparr>whiteColor := \<lparr>coldWhite = 253, warmWhite = 2\<rparr>\<rparr>"]
  by auto

section \<open>Commands outside the table\<close>

text \<open>
  C9. A command code that is none of 69, 71, 9, 7, 25, 64, 8, 12, 24, 94, 28 changes nothing:
  the whole state, which includes the globals, both compare registers, the EEPROM and the
  histories of \<open>setPWM\<close> and \<open>EEPROM.update\<close> calls, is returned as it was.
\<close>

theorem unknown_command_noop:
  assumes "command \<notin> {69, 71, 9, 7, 25, 64, 8, 12, 24, 94, 28}"
  shows "processNECCommand command s = Some s"
  using assms by (simp add: processNECCommand_def)

theorem unknown_command_noop_witness:
  "(70 :: u16) \<notin> {69, 71, 9, 7, 25, 64, 8, 12, 24, 94, 28} \<and>
   processNECCommand 70 init_ctrl = Some init_ctrl"
  using unknown_command_noop [of 70 init_ctrl] by simp

section \<open>Brightness steps and fixed levels\<close>

lemma brighter_step:
  assumes "coldWhite (whiteColor s) \<noteq> 0" and "warmWhite (whiteColor s) \<noteq> 0"
  shows "\<exists>s'. processNECCommand 9 s = Some s' \<and>
           uint (brightness s') = min (uint (brightness s) + 4) 255"
proof -
  define b' where "b' = (if unat (brightness s) < 251 then brightness s + 4 else 255)"
  obtain c where c: "setBrightness b' (whiteColor s) = Some c"
    using setBrightness_defined [of b' "whiteColor s"] assms by auto
  have "processNECCommand 9 s = Some (setPWM c (s\<lparr>brightness := b', whiteColor := c\<rparr>))"
    using c unfolding b'_def
    by (cases "unat (brightness s) < 251")
       (simp_all add: processNECCommand_def Let_def increment_def ucast_add4 word_less_nat_alt)
  moreover have "unat b' = min (unat (brightness s) + 4) 255"
    by (simp add: b'_def unat_add4)
  then have "uint b' = min (uint (brightness s) + 4) 255"
    unfolding uint_nat by linarith
  ultimately show ?thesis
    by (simp add: setPWM_def)
qed

lemma darker_step:
  assumes "coldWhite (whiteColor s) \<noteq> 0" and "warmWhite (whiteColor s) \<noteq> 0"
  shows "\<exists>s'. processNECCommand 7 s = Some s' \<and>
           uint (brightness s') = max (uint (brightness s) - 4) 0"
proof -
  define b' where "b' = (if 4 \<le> unat (brightness s) then brightness s - 4 else 0)"
  obtain c where c: "setBrightness b' (whiteColor s) = Some c"
    using setBrightness_defined [of b' "whiteColor s"] assms by auto
  have "processNECCommand 7 s = Some (setPWM c (s\<lparr>brightness := b', whiteColor := c\<rparr>))"
    using c unfolding b'_def
    by (cases "4 \<le> unat (brightness s)")
       (simp_all add: processNECCommand_def Let_def increment_def ucast_sub4 word_le_nat_alt)
  moreover have "unat b' = unat (brightness s) - 4"
    by (simp add: b'_def unat_sub4)
  then have "uint b' = max (uint (brightness s) - 4) 0"
    unfolding uint_nat by linarith
  ultimately show ?thesis
    by (simp add: setPWM_def)
qed

text \<open>
  C7. The brighter command (9) sets \<open>brightness\<close> to \<open>min (b + 4) 255\<close> and the darker
  command (7) sets it to \<open>max (b - 4) 0\<close>, for every value \<open>b\<close> of \<open>brightness\<close>; from 252
  the brighter command gives 255. Both commands go on to rescale \<open>whiteColor\<close>, so the
  statement is for states whose colour has no channel equal to 0, where that call returns.
\<close>

theorem brightness_steps_saturate:
  assumes "coldWhite (whiteColor s) \<noteq> 0" and "warmWhite (whiteColor s) \<noteq> 0"
  shows "(\<exists>s'. processNECCommand 9 s = Some s' \<and>
            uint (brightness s') = min (uint (brightness s) + 4) 255) \<and>
         (\<exists>s'. processNECCommand 7 s = Some s' \<and>
            uint (brightness s') = max (uint (brightness s) - 4) 0)"
  using brighter_step [OF assms] darker_step [OF assms] by simp

theorem brightness_steps_saturate_witness:
  "coldWhite (whiteColor (init_ctrl\<lparr>brightness := 252\<rparr>)) \<noteq> 0 \<and>
   warmWhite (whiteColor (init_ctrl\<lparr>brightness := 252\<rparr>)) \<noteq> 0 \<and>
   (\<exists>s'. processNECCommand 9 (init_ctrl\<lparr>brightness := 252\<rparr>) = Some s' \<and>
      uint (brightness s') = 255) \<and>
   (\<exists>s'. processNECCommand 7 (init_ctrl\<lparr>brightness := 252\<rparr>) = Some s' \<and>
      uint (brightness s') = 248)"
  using brightness_steps_saturate [of "init_ctrl\<lparr>brightness := 252\<rparr>"]
  by (simp add: init_ctrl_def)

lemma fixed_level_frame:
  assumes "fixed_level level s = Some s'"
  shows "setBrightness level (whiteColor s) = Some (whiteColor s') \<and>
         brightness s' = brightness s \<and> current_preset s' = current_preset s \<and>
         is_on s' = is_on s \<and> is_night s' = is_night s"
  using assms by (auto simp add: fixed_level_def fadePWM_frame split: option.splits)

text \<open>
  C10. The commands 12, 24 and 94 replace \<open>whiteColor\<close> by its rescaling to 25, 128 and 255
  and leave \<open>brightness\<close>, \<open>current_preset\<close>, \<open>is_on\<close> and \<open>is_night\<close> as they were; a brighter
  or darker command that follows steps from the brightness held before the fixed-level
  command.
\<close>

theorem fixed_level_stale_brightness:
  assumes "coldWhite (whiteColor s) \<noteq> 0" and "warmWhite (whiteColor s) \<noteq> 0"
    and "(command, level) \<in> {(12, 25), (24, 128), (94, 255)}"
  shows "\<exists>s'. processNECCommand command s = Some s' \<and>
           setBrightness level (whiteColor s) = Some (whiteColor s') \<and>
           brightness s' = brightness s \<and> current_preset s' = current_preset s \<and>
           is_on s' = is_on s \<and> is_night s' = is_night s \<and>
           (\<exists>s''. processNECCommand 9 s' = Some s'' \<and>
              uint (brightness s'') = min (uint (brightness s) + 4) 255) \<and>
           (\<exists>s''. processNECCommand 7 s' = Some s'' \<and>
              uint (brightness s'') = max (uint (brightness s) - 4) 0)"
proof -
  have cmd: "processNECCommand command s = fixed_level level s"
    using assms(3) by (auto simp add: processNECCommand_def)
  obtain c where c: "setBrightness level (whiteColor s) = Some c"
    using setBrightness_defined [of level "whiteColor s"] assms(1,2) by auto
  then obtain s' where s': "fixed_level level s = Some s'"
    by (simp add: fixed_level_def)
  note fr = fixed_level_frame [OF s']
  have nz: "coldWhite (whiteColor s') \<noteq> 0" "warmWhite (whiteColor s') \<noteq> 0"
    using setBrightness_nonzero [of level "whiteColor s" "whiteColor s'"] fr by simp_all
  show ?thesis
    using cmd s' fr brighter_step [OF nz] darker_step [OF nz] by simp
qed

theorem fixed_level_stale_brightness_witness:
  "coldWhite (whiteColor (init_ctrl\<lparr>brightness := 40\<rparr>)) \<noteq> 0 \<and>
   warmWhite (whiteColor (init_ctrl\<lparr>brightness := 40\<rparr>)) \<noteq> 0 \<and>
   ((94, 255) :: u16 \<times> u8) \<in> {(12, 25), (24, 128), (94, 255)} \<and>
   (\<exists>s'. processNECCommand 94 (init_ctrl\<lparr>brightness := 40\<rparr>) = Some s' \<and>
      brightness s' = 40 \<and>
      (\<exists>s''. processNECCommand 9 s' = Some s'' \<and> uint (brightness s'') = 44))"
  using fixed_level_stale_brightness [of "init_ctrl\<lparr>brightness := 40\<rparr>" 94 255]
  by (auto simp add: init_ctrl_def)

section \<open>No command divides by zero\<close>

text \<open>
  From a state whose colours are valid every command returns, and the colours are valid
  again afterwards; the initial globals with an erased EEPROM are such a state.
\<close>

lemma warmer_whiteColor:
  "whiteColor (warmer s) =
     \<lparr>coldWhite = (if 4 < unat (coldWhite (whiteColor s))
                    then coldWhite (whiteColor s) - 4 else 1),
      warmWhite = (if unat (warmWhite (whiteColor s)) < 251
                    then warmWhite (whiteColor s) + 4 else 255)\<rparr>"
proof -
  let ?c = "coldWhite (whiteColor s)" and ?w = "warmWhite (whiteColor s)"
  have w: "unat ?w < 251 \<Longrightarrow> ?w + 4 \<noteq> 0"
    using unat_add4 [of ?w] by (auto simp: word_unat_eq_iff)
  have "?c - 4 = 0 \<longleftrightarrow> ?c = 4"
    by auto
  then have c: "unat ?c = 4 \<longleftrightarrow> ?c - 4 = 0"
    by (simp add: word_unat_eq_iff)
  show ?thesis
    using c w
    by (cases "whiteColor s")
       (auto simp add: warmer_def Let_def increment_def setPWM_def word_less_nat_alt
          word_le_nat_alt ucast_add4 ucast_sub4)
qed

lemma step_nonzero:
  "(if unat (x :: u8) < 251 then x + 4 else 255) \<noteq> 0"
  "(if 4 < unat (x :: u8) then x - 4 else 1) \<noteq> 0"
proof -
  show "(if unat x < 251 then x + 4 else 255) \<noteq> 0"
    using unat_add4 [of x] by (auto simp: word_unat_eq_iff)
  have "x - 4 = 0 \<longleftrightarrow> x = 4"
    by auto
  then show "(if 4 < unat x then x - 4 else 1) \<noteq> 0"
    by auto
qed

lemma colder_eeprom: "eeprom (colder s) = eeprom s"
  by (simp add: colder_def Let_def setPWM_def)

lemma warmer_eeprom: "eeprom (warmer s) = eeprom s"
  by (simp add: warmer_def Let_def setPWM_def)

lemma colours_valid_preserved:
  assumes "colours_valid s"
  shows "\<exists>s'. processNECCommand command s = Some s' \<and> colours_valid s'"
proof -
  have nz: "coldWhite (whiteColor s) \<noteq> 0" "warmWhite (whiteColor s) \<noteq> 0"
    and ee: "eeprom s EEPROM_COLD_WHITE_ADDR \<noteq> 0" "eeprom s EEPROM_WARM_WHITE_ADDR \<noteq> 0"
    using assms by (simp_all add: colours_valid_def)
  have scaled: "\<exists>c. setBrightness b (whiteColor s) = Some c \<and> coldWhite c \<noteq> 0 \<and> warmWhite c \<noteq> 0"
    for b
    using setBrightness_defined [of b "whiteColor s"] nz setBrightness_nonzero [of b "whiteColor s"]
    by auto
  have fixed: "\<exists>s'. fixed_level b s = Some s' \<and> colours_valid s'" for b
    using scaled [of b] ee by (auto simp add: fixed_level_def colours_valid_def fadePWM_frame)
  consider "command = 69" | "command = 71" | "command = 9" | "command = 7" | "command = 25"
    | "command = 64" | "command = 8" | "command = 12" | "command = 24" | "command = 94"
    | "command = 28" | "command \<notin> {69, 71, 9, 7, 25, 64, 8, 12, 24, 94, 28}"
    by auto
  then show ?thesis
  proof cases
    case 1
    then show ?thesis
      using assms by (simp add: processNECCommand_def Let_def colours_valid_def fadePWM_frame)
  next
    case 2
    let ?p = "preset (unat (ucast ((ucast (current_preset s) + 1 :: u16) mod 5) :: u8))"
    have "unat ((ucast (current_preset s) + 1 :: u16) mod 5) < 5"
      by (simp add: unat_word_ariths)
    then have "unat (ucast ((ucast (current_preset s) + 1 :: u16) mod 5) :: u8) < 5"
      by (simp add: unsigned_ucast_eq take_bit_eq_mod)
    then have "unat (ucast ((ucast (current_preset s) + 1 :: u16) mod 5) :: u8) \<in> {0, 1, 2, 3, 4}"
      by auto
    then have "coldWhite ?p \<noteq> 0 \<and> warmWhite ?p \<noteq> 0"
      by (auto simp add: preset_def presets_def)
    then obtain c where "setBrightness (brightness s) ?p = Some c"
      and "coldWhite c \<noteq> 0" "warmWhite c \<noteq> 0"
      using setBrightness_defined [of "brightness s" ?p] setBrightness_nonzero [of "brightness s" ?p]
      by auto
    then show ?thesis
      using 2 ee by (simp add: processNECCommand_def Let_def colours_valid_def fadePWM_frame)
  next
    case 3
    let ?b = "if ucast (brightness s) < 255 - increment
              then ucast (ucast (brightness s) + increment) else (255 :: u8)"
    from scaled [of ?b] show ?thesis
      using 3 ee by (auto simp add: processNECCommand_def Let_def colours_valid_def setPWM_def)
  next
    case 4
    let ?b = "if ucast (brightness s) \<ge> increment
              then ucast (ucast (brightness s) - increment) else (0 :: u8)"
    from scaled [of ?b] show ?thesis
      using 4 ee by (auto simp add: processNECCommand_def Let_def colours_valid_def setPWM_def)
  next
    case 5
    then show ?thesis
      using ee step_nonzero
      by (simp add: processNECCommand_def colours_valid_def colder_whiteColor colder_eeprom)
  next
    case 6
    then show ?thesis
      using ee step_nonzero
      by (simp add: processNECCommand_def colours_valid_def warmer_whiteColor warmer_eeprom)
  next
    case 7
    then show ?thesis
      using nz ee
      by (simp add: processNECCommand_def Let_def colours_valid_def night_color fadePWM_frame
          readColor_def EEPROM_read_def)
  next
    case 8
    then show ?thesis
      using fixed [of 25] by (simp add: processNECCommand_def)
  next
    case 9
    then show ?thesis
      using fixed [of 128] by (simp add: processNECCommand_def)
  next
    case 10
    then show ?thesis
      using fixed [of 255] by (simp add: processNECCommand_def)
  next
    case 11
    then show ?thesis
      using nz
      by (simp add: processNECCommand_def Let_def colours_valid_def EEPROM_update_def setPWM_def
          mdelay_def EEPROM_COLD_WHITE_ADDR_def EEPROM_WARM_WHITE_ADDR_def)
  next
    case 12
    then show ?thesis
      using assms by (simp add: processNECCommand_def)
  qed
qed

lemma colours_valid_init: "colours_valid init_ctrl"
  by (simp add: colours_valid_def init_ctrl_def)

end
